theory Spec2Isabelle
  imports Complex_Main "HOL-Library.Multiset"
begin

section \<open>Values and errors\<close>

text \<open>
  The model follows \<^verbatim>\<open>bpm_detect_1.py\<close>. Samples and every intermediate signal are
  lists of reals: the arithmetic of the source is IEEE double arithmetic, of which the
  model keeps the exact real value and drops the rounding. The only non-finite values the
  source can produce are the ones numpy returns for a division by zero in line 99, so the
  BPM values carry them explicitly. The sample rate is a natural number, times in seconds
  are reals.

  An exception of Python is a value \<open>Inl e\<close>; the return value \<^verbatim>\<open>None\<close> is \<open>None\<close>. The
  blocks of \<^verbatim>\<open>bpm_detector\<close> that the properties are about have definitions of their own,
  named after what they compute, with the lines of the source they stand for.
\<close>

datatype error = ValueError | ZeroDivisionError

datatype npfloat = Fin real | PInf | NaN

text \<open>The order in which \<^verbatim>\<open>numpy.sort\<close> arranges doubles: finite values, then \<open>inf\<close>, then \<open>nan\<close>.\<close>

instantiation npfloat :: linorder
begin

fun less_eq_npfloat :: "npfloat \<Rightarrow> npfloat \<Rightarrow> bool" where
  "less_eq_npfloat (Fin x) (Fin y) = (x \<le> y)"
| "less_eq_npfloat (Fin x) PInf = True"
| "less_eq_npfloat (Fin x) NaN = True"
| "less_eq_npfloat PInf (Fin y) = False"
| "less_eq_npfloat PInf PInf = True"
| "less_eq_npfloat PInf NaN = True"
| "less_eq_npfloat NaN (Fin y) = False"
| "less_eq_npfloat NaN PInf = False"
| "less_eq_npfloat NaN NaN = True"

definition less_npfloat :: "npfloat \<Rightarrow> npfloat \<Rightarrow> bool" where
  "less_npfloat a b = (a \<le> b \<and> \<not> b \<le> a)"

instance
proof
  fix x y z :: npfloat
  show "(x < y) = (x \<le> y \<and> \<not> y \<le> x)"
    by (simp add: less_npfloat_def)
  show "x \<le> x"
    by (cases x) simp_all
  show "x \<le> y \<Longrightarrow> y \<le> z \<Longrightarrow> x \<le> z"
    by (cases x; cases y; cases z) simp_all
  show "x \<le> y \<Longrightarrow> y \<le> x \<Longrightarrow> x = y"
    by (cases x; cases y) simp_all
  show "x \<le> y \<or> y \<le> x"
    by (cases x; cases y) auto
qed

end

section \<open>The library calls of the source\<close>

text \<open>
  \<^verbatim>\<open>numpy\<close>, \<^verbatim>\<open>scipy.signal\<close> and \<^verbatim>\<open>pywt\<close> are not part of the repository. The calls
  the source makes are modelled from the libraries' documented behaviour on
  one-dimensional arrays; the wavelet transform \<^verbatim>\<open>pywt.dwt(x, "db4")\<close> is a parameter
  \<open>dwt\<close> of the model, since no claim depends on the coefficient values it computes.
\<close>

type_synonym dwt = "real list \<Rightarrow> error + (real list \<times> real list)"

text \<open>\<^verbatim>\<open>a + b\<close> on one-dimensional arrays: elementwise, a length-one operand is broadcast,
  any other pair of different lengths raises.\<close>

definition np_add :: "real list \<Rightarrow> real list \<Rightarrow> error + real list" where
  "np_add xs ys =
     (if length xs = length ys then Inr (map2 (+) xs ys)
      else if length xs = 1 then Inr (map (\<lambda>y. hd xs + y) ys)
      else if length ys = 1 then Inr (map (\<lambda>x. x + hd ys) xs)
      else Inl ValueError)"

definition np_mean :: "real list \<Rightarrow> real" where
  "np_mean xs = sum_list xs / real (length xs)"

text \<open>\<^verbatim>\<open>x[::k]\<close>: the elements at positions 0, k, 2k, ...\<close>

fun stride :: "nat \<Rightarrow> 'a list \<Rightarrow> 'a list" where
  "stride k [] = []"
| "stride k (x # xs) = x # stride k (drop (k - 1) xs)"

text \<open>\<^verbatim>\<open>x[lo:hi]\<close> for indices that are not negative.\<close>

definition slice :: "'a list \<Rightarrow> nat \<Rightarrow> nat \<Rightarrow> 'a list" where
  "slice xs lo hi = take (hi - lo) (drop lo xs)"

text \<open>\<^verbatim>\<open>x[i:j]\<close> of a Python list for any integers: a negative index counts from the end,
  and both ends are clipped to the list.\<close>

definition slice_index :: "nat \<Rightarrow> int \<Rightarrow> nat" where
  "slice_index n i = (if i < 0 then nat (max 0 (int n + i)) else min n (nat i))"

definition py_slice :: "'a list \<Rightarrow> int \<Rightarrow> int \<Rightarrow> 'a list" where
  "py_slice xs i j = slice xs (slice_index (length xs) i) (slice_index (length xs) j)"

text \<open>\<^verbatim>\<open>int(x)\<close> of a float truncates towards zero.\<close>

definition py_int :: "real \<Rightarrow> int" where
  "py_int x = (if 0 \<le> x then \<lfloor>x\<rfloor> else \<lceil>x\<rceil>)"

text \<open>
  \<^verbatim>\<open>scipy.signal.lfilter(b, a, x)\<close> with zero initial state:
  \<open>a\<^sub>0 y\<^sub>n = b\<^sub>0 x\<^sub>n + b\<^sub>1 x\<^sub>n\<^sub>-\<^sub>1 + \<dots> - a\<^sub>1 y\<^sub>n\<^sub>-\<^sub>1 - a\<^sub>2 y\<^sub>n\<^sub>-\<^sub>2 - \<dots>\<close>.
  The two history lists hold the inputs and outputs seen so far, newest first.
\<close>

definition dot :: "real list \<Rightarrow> real list \<Rightarrow> real" where
  "dot xs ys = sum_list (map2 (*) xs ys)"

fun lfilter_run :: "real list \<Rightarrow> real list \<Rightarrow> real list \<Rightarrow> real list \<Rightarrow> real list \<Rightarrow> real list" where
  "lfilter_run b a xh yh [] = []"
| "lfilter_run b a xh yh (x # xs) =
     (let y = (dot b (x # xh) - dot (tl a) yh) / hd a
      in y # lfilter_run b a (x # xh) (y # yh) xs)"

definition lfilter :: "real list \<Rightarrow> real list \<Rightarrow> real list \<Rightarrow> error + real list" where
  "lfilter b a x =
     (if a = [] \<or> hd a = 0 then Inl ValueError else Inr (lfilter_run b a [] [] x))"

text \<open>
  \<^verbatim>\<open>numpy.correlate(a, v, "full")\<close>: \<open>c\<^sub>k = \<Sum>\<^sub>n a\<^sub>n\<^sub>+\<^sub>k v\<^sub>n\<close> for
  \<open>k = -(length v - 1), \<dots>, length a - 1\<close>; an empty operand raises.
\<close>

definition correlate_full :: "real list \<Rightarrow> real list \<Rightarrow> error + real list" where
  "correlate_full a v =
     (if a = [] \<or> v = [] then Inl ValueError
      else Inr (map (\<lambda>j. dot a (drop j v)) (rev [1..<length v])
                @ map (\<lambda>k. dot (drop k a) v) [0..<length a]))"

text \<open>\<^verbatim>\<open>numpy.amax\<close> raises on an empty array.\<close>

fun amax :: "real list \<Rightarrow> error + real" where
  "amax [] = Inl ValueError"
| "amax (x # xs) = Inr (fold max xs x)"

text \<open>\<^verbatim>\<open>numpy.where(data == v)[0]\<close>: the positions holding \<open>v\<close>, ascending.\<close>

definition where_eq :: "real list \<Rightarrow> real \<Rightarrow> nat list" where
  "where_eq data v = filter (\<lambda>i. data ! i = v) [0..<length data]"

section \<open>bpm\_detect\_1.py\<close>

subsection \<open>peak\_detect\<close>

definition peak_detect :: "real list \<Rightarrow> error + nat list" where
  "peak_detect data =
     (case amax (map abs data) of
        Inl e \<Rightarrow> Inl e
      | Inr max_val \<Rightarrow>
          (let peak_ndx = where_eq data max_val
           in if length peak_ndx = 0 then Inr (where_eq data (- max_val))
              else Inr peak_ndx))"

subsection \<open>bpm\_detector\<close>

definition levels :: nat where
  "levels = 4"

definition max_decimation :: nat where
  "max_decimation = 2 ^ (levels - 1)"

definition min_ndx :: "nat \<Rightarrow> nat" where
  "min_ndx fs = nat \<lfloor>60 / 220 * (real fs / real max_decimation)\<rfloor>"

definition max_ndx :: "nat \<Rightarrow> nat" where
  "max_ndx fs = nat \<lfloor>60 / 40 * (real fs / real max_decimation)\<rfloor>"

text \<open>Lines 69 and 70: decimate, rectify, subtract the mean of what is left.\<close>

definition decimate_abs_center :: "nat \<Rightarrow> real list \<Rightarrow> real list" where
  "decimate_abs_center loop cD =
     (let cD1 = map abs (stride (2 ^ (levels - loop - 1)) cD)
      in map (\<lambda>x. x - np_mean cD1) cD1)"

text \<open>Lines 66 to 70, the envelope of one level's detail signal.\<close>

definition detail_envelope :: "nat \<Rightarrow> real list \<Rightarrow> error + real list" where
  "detail_envelope loop cD =
     (case lfilter [0.01] [1 - 0.99] cD of
        Inl e \<Rightarrow> Inl e
      | Inr cD1 \<Rightarrow> Inr (decimate_abs_center loop cD1))"

text \<open>
  The loop of lines 55 to 73 over the values of \<^verbatim>\<open>loop\<close>. The state is
  \<open>(cA, cD_sum, cD_minlen)\<close>; \<open>cD_minlen\<close> is the float of line 60.
\<close>

type_synonym loop_state = "real list \<times> real list \<times> real"

fun dwt_loop :: "dwt \<Rightarrow> real list \<Rightarrow> nat list \<Rightarrow> loop_state \<Rightarrow> error + loop_state" where
  "dwt_loop dwt data [] st = Inr st"
| "dwt_loop dwt data (loop # rest) (cA, cD_sum, cD_minlen) =
     (case (if loop = 0 then dwt data else dwt cA) of
        Inl e \<Rightarrow> Inl e
      | Inr (cA', cD) \<Rightarrow>
          (let cD_minlen' =
                 (if loop = 0 then real (length cD) / real max_decimation + 1 else cD_minlen);
               cD_sum' =
                 (if loop = 0 then replicate (nat \<lfloor>cD_minlen'\<rfloor>) 0 else cD_sum)
           in (case detail_envelope loop cD of
                 Inl e \<Rightarrow> Inl e
               | Inr cD3 \<Rightarrow>
                   (case np_add (slice cD3 0 (nat \<lfloor>cD_minlen'\<rfloor>)) cD_sum' of
                      Inl e \<Rightarrow> Inl e
                    | Inr s \<Rightarrow> dwt_loop dwt data rest (cA', s, cD_minlen')))))"

text \<open>Line 99 on one adjusted peak index: \<^verbatim>\<open>60.0 / 0\<close> is \<open>inf\<close> in numpy, and
  \<open>inf * 0.0\<close> is \<open>nan\<close>.\<close>

definition bpm_of_lag :: "nat \<Rightarrow> nat \<Rightarrow> npfloat" where
  "bpm_of_lag fs lag =
     (if lag = 0 then (if fs = 0 then NaN else PInf)
      else Fin (60 / real lag * (real fs / real max_decimation)))"

text \<open>Lines 84 to 100: from the composite signal to the window's result.\<close>

definition acf_bpm :: "real list \<Rightarrow> nat \<Rightarrow> error + (npfloat list \<times> real list) option" where
  "acf_bpm cD_sum fs =
     (case correlate_full cD_sum cD_sum of
        Inl e \<Rightarrow> Inl e
      | Inr correl \<Rightarrow>
          (let midpoint = length correl div 2;
               correl_midpoint_tmp = drop midpoint correl
           in if min_ndx fs \<ge> length correl_midpoint_tmp
                 \<or> max_ndx fs > length correl_midpoint_tmp
              then Inr None
              else (case peak_detect (slice correl_midpoint_tmp (min_ndx fs) (max_ndx fs)) of
                      Inl e \<Rightarrow> Inl e
                    | Inr peak_ndx \<Rightarrow>
                        (if length peak_ndx = 0 then Inr None
                         else Inr (Some (map (\<lambda>p. bpm_of_lag fs (p + min_ndx fs)) peak_ndx,
                                         correl))))))"

definition bpm_detector :: "dwt \<Rightarrow> real list \<Rightarrow> nat \<Rightarrow> error + (npfloat list \<times> real list) option" where
  "bpm_detector dwt data fs =
     (case dwt_loop dwt data [0..<levels] ([], [], 0) of
        Inl e \<Rightarrow> Inl e
      | Inr (cA, cD_sum, cD_minlen) \<Rightarrow>
          (if filter (\<lambda>b. b \<noteq> 0) cA = [] then Inr None
           else (case lfilter [0.01] [1 - 0.99] cA of
                   Inl e \<Rightarrow> Inl e
                 | Inr cA1 \<Rightarrow>
                     (let cA2 = map abs cA1;
                          cA3 = map (\<lambda>x. x - np_mean cA2) cA2
                      in (case np_add (slice cA3 0 (nat \<lfloor>cD_minlen\<rfloor>)) cD_sum of
                            Inl e \<Rightarrow> Inl e
                          | Inr s \<Rightarrow> acf_bpm s fs)))))"

subsection \<open>Aggregation of the window estimates\<close>

text \<open>
  \<^verbatim>\<open>numpy.median\<close> of a flat array: sort, a \<open>nan\<close> anywhere gives \<open>nan\<close> (as does the
  empty array), otherwise the middle element or the mean of the two middle elements.
\<close>

fun np_mean2 :: "npfloat \<Rightarrow> npfloat \<Rightarrow> npfloat" where
  "np_mean2 (Fin a) (Fin b) = Fin ((a + b) / 2)"
| "np_mean2 NaN b = NaN"
| "np_mean2 a NaN = NaN"
| "np_mean2 a b = PInf"

definition np_median :: "npfloat list \<Rightarrow> npfloat" where
  "np_median xs =
     (let s = sort xs; n = length s
      in if n = 0 then NaN
         else if last s = NaN then NaN
         else if odd n then s ! (n div 2)
         else np_mean2 (s ! (n div 2 - 1)) (s ! (n div 2)))"

text \<open>
  \<^verbatim>\<open>numpy.median(bpms)\<close> on the Python list of the windows' arrays: arrays of one common
  length stack to a matrix whose median is taken over all entries; arrays of different
  lengths cannot be stacked (\<^verbatim>\<open>ValueError\<close> since NumPy 1.24).
\<close>

definition median_of_arrays :: "npfloat list list \<Rightarrow> error + npfloat" where
  "median_of_arrays bpms =
     (if list_ex (\<lambda>b. length b \<noteq> length (hd bpms)) bpms then Inl ValueError
      else Inr (np_median (concat bpms)))"

text \<open>Python's \<^verbatim>\<open>round(x, 1)\<close>: to the nearest multiple of 0.1, ties to the even one.\<close>

definition round_half_even :: "real \<Rightarrow> int" where
  "round_half_even x =
     (let f = \<lfloor>x\<rfloor>; d = x - of_int f
      in if d < 1 / 2 then f else if 1 / 2 < d then f + 1
         else if even f then f else f + 1)"

fun py_round1 :: "npfloat \<Rightarrow> npfloat" where
  "py_round1 (Fin x) = Fin (of_int (round_half_even (x * 10)) / 10)"
| "py_round1 PInf = PInf"
| "py_round1 NaN = NaN"

text \<open>Lines 137 to 145 and, word for word, 183 to 191.\<close>

definition aggregate_bpms :: "npfloat list list \<Rightarrow> error + npfloat option" where
  "aggregate_bpms bpms =
     (if bpms = [] then Inr None
      else (case median_of_arrays bpms of
              Inl e \<Rightarrow> Inl e
            | Inr bpm \<Rightarrow> Inr (Some (py_round1 bpm))))"

subsection \<open>Windows\<close>

text \<open>
  Lines 118 to 131 and 164 to 177: the list of the slices \<^verbatim>\<open>data\<close> that the loop hands
  to the detector, in order. \<^verbatim>\<open>nsamps / window_samps\<close> is Python's true division, which
  raises when the divisor is zero.
\<close>

definition split_windows :: "real list \<Rightarrow> nat \<Rightarrow> real \<Rightarrow> error + real list list" where
  "split_windows samps fs window_size =
     (let nsamps = int (length samps);
          window_samps0 = py_int (window_size * real fs);
          window_samps = (if nsamps < window_samps0 then nsamps else window_samps0)
      in if window_samps = 0 then Inl ZeroDivisionError
         else (let max_window_ndx = \<lfloor>real_of_int nsamps / real_of_int window_samps\<rfloor>
               in Inr (map (\<lambda>window_ndx.
                              (let samps_ndx = int window_ndx * window_samps
                               in py_slice samps samps_ndx (samps_ndx + window_samps)))
                           [0..<nat max_window_ndx])))"

text \<open>The detector is a parameter: the source calls \<open>bpm_detector\<close> here.\<close>

type_synonym detector = "real list \<Rightarrow> nat \<Rightarrow> error + (npfloat list \<times> real list) option"

fun window_loop :: "detector \<Rightarrow> nat \<Rightarrow> real list list \<Rightarrow> error + npfloat list list" where
  "window_loop det fs [] = Inr []"
| "window_loop det fs (data # rest) =
     (case det data fs of
        Inl e \<Rightarrow> Inl e
      | Inr None \<Rightarrow> window_loop det fs rest
      | Inr (Some (bpm, correl)) \<Rightarrow>
          (case window_loop det fs rest of
             Inl e \<Rightarrow> Inl e
           | Inr bpms \<Rightarrow> Inr (bpm # bpms)))"

definition windowed_bpm :: "detector \<Rightarrow> real list \<Rightarrow> nat \<Rightarrow> real \<Rightarrow> error + npfloat option" where
  "windowed_bpm det samps fs window_size =
     (case split_windows samps fs window_size of
        Inl e \<Rightarrow> Inl e
      | Inr windows \<Rightarrow>
          (case window_loop det fs windows of
             Inl e \<Rightarrow> Inl e
           | Inr bpms \<Rightarrow> aggregate_bpms bpms))"

subsection \<open>detect\_file\_bpm and detect\_segment\_bpm\<close>

text \<open>The argument \<open>wav\<close> is what \<^verbatim>\<open>read_wav\<close> returns: \<open>None\<close> for a file that does not
  exist or cannot be read, else the samples and the sample rate.\<close>

definition detect_file_bpm :: "detector \<Rightarrow> (real list \<times> nat) option \<Rightarrow> real \<Rightarrow> error + npfloat option" where
  "detect_file_bpm det wav window_size =
     (case wav of
        None \<Rightarrow> Inr None
      | Some (samps, fs) \<Rightarrow> windowed_bpm det samps fs window_size)"

definition detect_segment_bpm ::
  "detector \<Rightarrow> real list \<Rightarrow> nat \<Rightarrow> real \<Rightarrow> real \<Rightarrow> real \<Rightarrow> error + npfloat option" where
  "detect_segment_bpm det audio_data fs start_time end_time window_size =
     (let start_sample = py_int (start_time * real fs);
          end_sample = py_int (end_time * real fs)
      in if start_sample \<ge> int (length audio_data) \<or> end_sample > int (length audio_data)
            \<or> start_sample \<ge> end_sample
         then Inr None
         else windowed_bpm det (py_slice audio_data start_sample end_sample) fs window_size)"

section \<open>What the specification says, for comparison\<close>

text \<open>The smoothing filter in the specification's words:
  \<open>output[n] = 0.01 \<cdot> input[n] + 0.99 \<cdot> output[n-1]\<close>, starting from rest.\<close>

fun iir_from :: "real \<Rightarrow> real list \<Rightarrow> real list" where
  "iir_from prev [] = []"
| "iir_from prev (x # xs) = (let y = 0.01 * x + 0.99 * prev in y # iir_from y xs)"

definition spec_smoothing :: "real list \<Rightarrow> real list" where
  "spec_smoothing x = iir_from 0 x"

text \<open>The envelope in the specification's order: rectify, subtract the mean of the
  full-rate signal, then subsample.\<close>

definition spec_envelope :: "nat \<Rightarrow> real list \<Rightarrow> real list" where
  "spec_envelope loop f =
     (let r = map abs f
      in stride (2 ^ (levels - loop - 1)) (map (\<lambda>x. x - np_mean r) r))"


text \<open>All positions of maximum magnitude, the rule \<open>argmax(abs(x))\<close> with every tie kept.\<close>

definition argmax_abs :: "real list \<Rightarrow> nat list" where
  "argmax_abs data = filter (\<lambda>i. \<bar>data ! i\<bar> = Max (abs ` set data)) [0..<length data]"

section \<open>The wavelet transform on silence, and its lengths\<close>

text \<open>
  What \<^verbatim>\<open>pywt.dwt(x, "db4")\<close> returns on an all-zero input in its default signal
  extension mode: zero coefficients, \<open>\<lfloor>(n + 7) / 2\<rfloor>\<close> of each kind for \<open>n\<close> samples (the
  filter has 8 taps); an empty input raises. It stands for the library call in the closed
  examples on silent windows, where every level is applied to zeros again.
\<close>

definition dwt_silent :: dwt where
  "dwt_silent x =
     (if x = [] then Inl ValueError
      else Inr (replicate ((length x + 7) div 2) 0, replicate ((length x + 7) div 2) 0))"

text \<open>
  The lengths \<^verbatim>\<open>pywt.dwt(x, "db4")\<close> returns in its default signal extension mode, for
  every non-empty input: \<open>\<lfloor>(n + 7) / 2\<rfloor>\<close> approximation and as many detail coefficients.
\<close>

definition db4_lengths :: "dwt \<Rightarrow> bool" where
  "db4_lengths dwt \<longleftrightarrow>
     (\<forall>x. x \<noteq> [] \<longrightarrow>
        (\<exists>a d. dwt x = Inr (a, d) \<and> length a = (length x + 7) div 2
               \<and> length d = (length x + 7) div 2))"

section \<open>Facts about the library calls\<close>

lemma amax_Max: "amax xs = Inr (Max (set xs))" if "xs \<noteq> []"
proof (cases xs)
  case Nil
  with that show ?thesis by simp
next
  case (Cons y ys)
  then show ?thesis
    using Max.set_eq_fold [of y ys] by simp
qed

lemma set_where_eq: "set (where_eq data v) = {i. i < length data \<and> data ! i = v}"
  by (auto simp: where_eq_def)

lemma sorted_where_eq: "sorted (where_eq data v)"
  by (simp add: where_eq_def sorted_wrt_filter)

lemma distinct_where_eq: "distinct (where_eq data v)"
  by (simp add: where_eq_def)

lemma max_abs_attained:
  assumes "data \<noteq> []"
  shows "\<exists>i<length data. \<bar>data ! i\<bar> = Max (abs ` set data)"
proof -
  have "Max (abs ` set data) \<in> abs ` set data"
    using assms by (intro Max_in) auto
  then obtain x where "x \<in> set data" "\<bar>x\<bar> = Max (abs ` set data)"
    by auto
  then show ?thesis
    by (auto simp: in_set_conv_nth)
qed

text \<open>The call of lines 66 and 79 has a denominator of one coefficient, \<open>1 - 0.99\<close>: there
  is no feedback term, and numerator and denominator cancel.\<close>

lemma lfilter_run_same_coeff:
  "c \<noteq> 0 \<Longrightarrow> lfilter_run [c] [c] xh yh xs = xs"
  by (induction xs arbitrary: xh yh) (simp_all add: dot_def)

lemma lfilter_source_call: "lfilter [0.01] [1 - 0.99] x = Inr x"
  by (simp add: lfilter_def lfilter_run_same_coeff)

text \<open>With the denominator \<open>[1, -0.99]\<close> the same library call is the recurrence of the
  specification.\<close>

lemma lfilter_run_one_pole:
  "lfilter_run [1 / 100] [1, - (99 / 100)] xh yh xs
     = iir_from (case yh of [] \<Rightarrow> 0 | y # _ \<Rightarrow> y) xs"
  by (induction xs arbitrary: xh yh) (simp_all add: dot_def Let_def split: list.splits)

lemma lfilter_one_pole: "lfilter [0.01] [1, - 0.99] x = Inr (spec_smoothing x)"
  using lfilter_run_one_pole [of "[]" "[]" x] by (simp add: lfilter_def spec_smoothing_def)

section \<open>peak\_detect\<close>

lemma peak_detect_eq:
  assumes "data \<noteq> []"
  shows "peak_detect data =
           Inr (if where_eq data (Max (abs ` set data)) = []
                then where_eq data (- Max (abs ` set data))
                else where_eq data (Max (abs ` set data)))"
  using assms by (simp add: peak_detect_def amax_Max Let_def)

lemma peak_detect_nonempty:
  assumes "data \<noteq> []" and "peak_detect data = Inr ndx"
  shows "ndx \<noteq> []"
proof -
  let ?M = "Max (abs ` set data)"
  obtain i where i: "i < length data" "\<bar>data ! i\<bar> = ?M"
    using max_abs_attained [OF assms(1)] by blast
  then have "data ! i = ?M \<or> data ! i = - ?M"
    by linarith
  then have "i \<in> set (where_eq data ?M) \<or> i \<in> set (where_eq data (- ?M))"
    using i by (auto simp: set_where_eq)
  then have "where_eq data ?M \<noteq> [] \<or> where_eq data (- ?M) \<noteq> []"
    by auto
  then show ?thesis
    using assms(2) by (auto simp: peak_detect_eq [OF assms(1)] split: if_splits)
qed

text \<open>
  Claim C8. On a non-empty slice \<open>peak_detect\<close> returns the positions, in ascending order
  and each once, at which the slice equals the largest magnitude \<open>M\<close> of the slice; when
  no position holds \<open>+M\<close> it returns the positions that hold \<open>-M\<close> instead. The result is
  never empty.
\<close>

theorem peak_detect_positive_then_negated:
  assumes "data \<noteq> []"
  shows "\<exists>ndx. peak_detect data = Inr ndx \<and> sorted ndx \<and> distinct ndx \<and> ndx \<noteq> []
           \<and> set ndx =
               (if \<exists>i<length data. data ! i = Max (abs ` set data)
                then {i. i < length data \<and> data ! i = Max (abs ` set data)}
                else {i. i < length data \<and> data ! i = - Max (abs ` set data)})"
proof -
  let ?M = "Max (abs ` set data)"
  obtain ndx where ndx: "peak_detect data = Inr ndx"
    by (simp add: peak_detect_eq [OF assms])
  have ne: "ndx \<noteq> []"
    using peak_detect_nonempty [OF assms ndx] .
  have empty_iff: "where_eq data ?M = [] \<longleftrightarrow> \<not> (\<exists>i<length data. data ! i = ?M)"
    using set_where_eq [of data ?M] by (metis (mono_tags, lifting) empty_Collect_eq set_empty)
  have "sorted ndx" "distinct ndx"
    using ndx by (auto simp: peak_detect_eq [OF assms] sorted_where_eq distinct_where_eq split: if_splits)
  moreover have "set ndx =
               (if \<exists>i<length data. data ! i = ?M
                then {i. i < length data \<and> data ! i = ?M}
                else {i. i < length data \<and> data ! i = - ?M})"
  proof (cases "where_eq data ?M = []")
    case True
    then have "ndx = where_eq data (- ?M)"
      using ndx by (simp add: peak_detect_eq [OF assms])
    with True empty_iff show ?thesis
      by (auto simp: set_where_eq)
  next
    case False
    then have "ndx = where_eq data ?M"
      using ndx by (simp add: peak_detect_eq [OF assms])
    with False empty_iff show ?thesis
      by (auto simp: set_where_eq)
  qed
  ultimately show ?thesis
    using ndx ne by blast
qed

text \<open>The theorem at the slice \<open>[2, -5, 5, 5, -1]\<close>: both signs reach the magnitude 5,
  and the positions of \<open>+5\<close> are returned.\<close>

theorem peak_detect_witness:
  "\<exists>ndx. peak_detect [2, - 5, 5, 5, - 1] = Inr ndx \<and> set ndx = {2, 3}"
proof -
  have ne: "[2, - 5, 5, 5, - 1 :: real] \<noteq> []"
    by simp
  from peak_detect_positive_then_negated [OF ne]
  obtain ndx where 1: "peak_detect [2, - 5, 5, 5, - 1] = Inr ndx"
    and 2: "set ndx =
      (if \<exists>i<length [2, - 5, 5, 5, - 1 :: real].
             [2, - 5, 5, 5, - 1 :: real] ! i = Max (abs ` set [2, - 5, 5, 5, - 1])
       then {i. i < length [2, - 5, 5, 5, - 1 :: real]
                \<and> [2, - 5, 5, 5, - 1 :: real] ! i = Max (abs ` set [2, - 5, 5, 5, - 1])}
       else {i. i < length [2, - 5, 5, 5, - 1 :: real]
                \<and> [2, - 5, 5, 5, - 1 :: real] ! i = - Max (abs ` set [2, - 5, 5, 5, - 1])})"
    by blast
  have "set ndx = {2, 3}"
    unfolding 2 by (auto simp: nth_Cons' less_Suc_eq split: if_splits)
  with 1 show ?thesis
    by blast
qed

text \<open>The rule is not \<open>argmax(abs(x))\<close>: on \<open>[-3, 3]\<close> both positions have the maximum
  magnitude, and only the positive one is returned.\<close>

lemma peak_detect_not_argmax_abs:
  "peak_detect [- 3, 3] = Inr [1] \<and> argmax_abs [- 3, 3] = [0, 1]"
  by (simp add: peak_detect_def where_eq_def argmax_abs_def)

section \<open>The smoothing filter\<close>

text \<open>
  Claim C2. The claim is that the smoothing step computes
  \<open>output[n] = 0.01 \<cdot> input[n] + 0.99 \<cdot> output[n-1]\<close>. On the detail signal \<open>[1, 1]\<close> the
  call of the source returns \<open>[1, 1]\<close>, while the recurrence gives \<open>[0.01, 0.0199]\<close>.
\<close>

theorem smoothing_is_not_the_recurrence:
  "lfilter [0.01] [1 - 0.99] [1, 1] = Inr [1, 1]
   \<and> spec_smoothing [1, 1] = [1 / 100, 199 / 10000]"
  by (simp add: lfilter_def dot_def spec_smoothing_def)

section \<open>The envelope of one level\<close>

lemma length_stride:
  "0 < k \<Longrightarrow> length (stride k xs) = (length xs + k - 1) div k"
proof (induction k xs rule: stride.induct)
  case (1 k)
  then show ?case by simp
next
  case (2 k x xs)
  show ?case
  proof (cases "k - 1 \<le> length xs")
    case True
    with 2 have "length (stride k (x # xs)) = Suc (length xs div k)"
      by simp
    also have "\<dots> = (length (x # xs) + k - 1) div k"
      using 2(2) by simp
    finally show ?thesis .
  next
    case False
    with 2 show ?thesis
      by simp
  qed
qed

lemma nth_stride:
  "0 < k \<Longrightarrow> i < length (stride k xs) \<Longrightarrow> stride k xs ! i = xs ! (i * k)"
proof (induction k xs arbitrary: i rule: stride.induct)
  case (1 k)
  then show ?case by simp
next
  case (2 k x xs)
  show ?case
  proof (cases i)
    case 0
    then show ?thesis by simp
  next
    case (Suc j)
    with 2 have j: "j < length (stride k (drop (k - 1) xs))"
      by simp
    then have "stride k (drop (k - 1) xs) ! j = drop (k - 1) xs ! (j * k)"
      using 2 by simp
    also have "\<dots> = xs ! (k - 1 + j * k)"
    proof -
      have "drop (k - 1) xs \<noteq> []"
        using j by auto
      then show ?thesis
        by simp
    qed
    also have "\<dots> = (x # xs) ! (Suc j * k)"
      using 2(2) by (cases k) (simp_all add: ac_simps)
    finally show ?thesis
      using Suc by simp
  qed
qed

lemma sum_list_nth: "sum_list (xs :: real list) = (\<Sum>j<length xs. xs ! j)"
  by (simp add: sum_list_sum_nth atLeast0LessThan)

lemma decimate_abs_center_nth:
  assumes "loop < levels"
  shows "length (decimate_abs_center loop f)
           = (length f + 2 ^ (levels - loop - 1) - 1) div 2 ^ (levels - loop - 1)"
    and "i < length (decimate_abs_center loop f) \<Longrightarrow>
         decimate_abs_center loop f ! i
           = \<bar>f ! (i * 2 ^ (levels - loop - 1))\<bar>
             - (\<Sum>j<length (decimate_abs_center loop f). \<bar>f ! (j * 2 ^ (levels - loop - 1))\<bar>)
               / real (length (decimate_abs_center loop f))"
proof -
  let ?k = "2 ^ (levels - loop - 1) :: nat"
  have k: "0 < ?k" by simp
  show len: "length (decimate_abs_center loop f) = (length f + ?k - 1) div ?k"
    using length_stride [OF k, of f] by (simp add: decimate_abs_center_def Let_def)
  assume i: "i < length (decimate_abs_center loop f)"
  have l: "length (decimate_abs_center loop f) = length (stride ?k f)"
    by (simp add: decimate_abs_center_def Let_def)
  have "sum_list (map abs (stride ?k f)) = (\<Sum>j<length (stride ?k f). \<bar>f ! (j * ?k)\<bar>)"
    unfolding sum_list_nth using nth_stride [OF k, of _ f] by (intro sum.cong) simp_all
  then show "decimate_abs_center loop f ! i
           = \<bar>f ! (i * ?k)\<bar>
             - (\<Sum>j<length (decimate_abs_center loop f). \<bar>f ! (j * ?k)\<bar>)
               / real (length (decimate_abs_center loop f))"
    using i nth_stride [OF k, of i f] unfolding l
    by (simp add: decimate_abs_center_def Let_def np_mean_def)
qed

text \<open>
  Claim C3, as amended. The envelope of a level is taken from the filtered detail signal
  \<open>f\<close> by subsampling first, with stride \<open>2^(L-1-level)\<close>: entry \<open>i\<close> is the magnitude of
  \<open>f\<close> at position \<open>i\<close> times the stride, minus the mean of the magnitudes at the
  subsampled positions only.
\<close>

theorem envelope_decimates_first:
  assumes "loop < levels" and "lfilter [0.01] [1 - 0.99] cD = Inr f"
  shows "\<exists>env. detail_envelope loop cD = Inr env
      \<and> length env = (length f + 2 ^ (levels - loop - 1) - 1) div 2 ^ (levels - loop - 1)
      \<and> (\<forall>i<length env.
           env ! i = \<bar>f ! (i * 2 ^ (levels - loop - 1))\<bar>
                     - (\<Sum>j<length env. \<bar>f ! (j * 2 ^ (levels - loop - 1))\<bar>) / real (length env))"
  using assms(2) decimate_abs_center_nth(1) [OF assms(1), of f]
    decimate_abs_center_nth(2) [OF assms(1), of _ f]
  by (simp add: detail_envelope_def)

text \<open>The theorem at level 2 (stride 2) on \<open>[1, 3, -5, 2]\<close>: the kept magnitudes are 1 and
  5, their mean is 3.\<close>

theorem envelope_decimates_first_witness:
  "\<exists>env. detail_envelope 2 [1, 3, - 5, 2] = Inr env \<and> length env = 2
      \<and> env ! 0 = - 2 \<and> env ! 1 = 2"
proof -
  have l: "(2::nat) < levels"
    by (simp add: levels_def)
  have f: "lfilter [0.01] [1 - 0.99] [1, 3, - 5, 2] = Inr [1, 3, - 5, 2]"
    by (rule lfilter_source_call)
  from envelope_decimates_first [OF l f]
  obtain env where e: "detail_envelope 2 [1, 3, - 5, 2] = Inr env"
    and n: "length env = (length [1, 3, - 5, 2 :: real] + 2 ^ (levels - 2 - 1) - 1) div 2 ^ (levels - 2 - 1)"
    and v: "\<forall>i<length env.
           env ! i = \<bar>[1, 3, - 5, 2 :: real] ! (i * 2 ^ (levels - 2 - 1))\<bar>
                     - (\<Sum>j<length env. \<bar>[1, 3, - 5, 2 :: real] ! (j * 2 ^ (levels - 2 - 1))\<bar>) / real (length env)"
    by blast
  have n2: "length env = 2"
    using n by (simp add: levels_def)
  have "env ! 0 = - 2" "env ! 1 = 2"
    using v unfolding n2 by (simp_all add: levels_def lessThan_Suc numeral_2_eq_2)
  with e n2 show ?thesis
    by blast
qed

text \<open>
  Claim C3 as stated fails: at level 2 on the detail signal \<open>[1, 3]\<close> the source keeps
  \<open>[1]\<close> and subtracts its mean 1, giving \<open>[0]\<close>; rectifying and centring at full rate
  (mean 2) and subsampling afterwards gives \<open>[-1]\<close>.
\<close>

theorem envelope_order_counterexample:
  "lfilter [0.01] [1 - 0.99] [1, 3] = Inr [1, 3]
   \<and> detail_envelope 2 [1, 3] = Inr [0]
   \<and> spec_envelope 2 [1, 3] = [- 1]"
  by (simp add: lfilter_def dot_def detail_envelope_def decimate_abs_center_def
      spec_envelope_def levels_def np_mean_def)

section \<open>The decomposition loop\<close>

lemma lfilter_same_coeff: "c \<noteq> 0 \<Longrightarrow> lfilter [c] [c] x = Inr x"
  by (simp add: lfilter_def lfilter_run_same_coeff)

lemma floor_minlen: "nat \<lfloor>real n / real max_decimation + 1\<rfloor> = n div 8 + 1"
proof -
  have "\<lfloor>real n / real 8\<rfloor> = int (n div 8)"
    by (rule floor_divide_of_nat_eq)
  then have "\<lfloor>real n / 8 + 1\<rfloor> = int (n div 8) + 1"
    by simp
  then show ?thesis
    by (simp add: max_decimation_def levels_def)
qed

lemma floor_minlen_Suc: "nat (\<lfloor>real n / real max_decimation\<rfloor> + 1) = Suc (n div 8)"
  using floor_minlen [of n] by simp

lemma np_add_mismatch:
  "length xs \<noteq> length ys \<Longrightarrow> length xs \<noteq> 1 \<Longrightarrow> length ys \<noteq> 1
     \<Longrightarrow> np_add xs ys = Inl ValueError"
  by (simp add: np_add_def)

lemma length_level0_envelope:
  "length (decimate_abs_center 0 cD) = (length cD + 7) div 8"
  using length_stride [of 8 cD] by (simp add: decimate_abs_center_def levels_def)

lemma first_level_mismatch:
  assumes "dwt data = Inr (cA, cD)" and "8 dvd length cD" and "16 \<le> length cD"
  shows "dwt_loop dwt data (0 # rest) st = Inl ValueError"
proof -
  obtain a s m where st: "st = (a, s, m)"
    by (cases st) auto
  let ?n = "length cD div 8 + 1"
  have env: "detail_envelope 0 cD = Inr (decimate_abs_center 0 cD)"
    by (simp add: detail_envelope_def lfilter_same_coeff)
  have len: "length (decimate_abs_center 0 cD) = length cD div 8"
    using assms(2) by (auto simp: length_level0_envelope elim!: dvdE)
  have two: "2 \<le> length cD div 8"
    using assms(2,3) by (auto elim!: dvdE)
  have "np_add (slice (decimate_abs_center 0 cD) 0 (Suc (length cD div 8)))
          (replicate (Suc (length cD div 8)) 0) = Inl ValueError"
    using len two by (intro np_add_mismatch) (simp_all add: slice_def)
  then show ?thesis
    using assms(1) env by (simp add: st floor_minlen_Suc del: replicate_Suc)
qed

text \<open>
  Claim C4. The claim is that every truncated envelope has the common length
  \<open>\<lfloor>n / 8\<rfloor> + 1\<close>, \<open>n\<close> the number of level-0 detail coefficients, so that line 73 never
  fails. When \<open>n\<close> is a multiple of 8 the level-0 envelope has only \<open>n / 8\<close> entries, and
  from \<open>n = 16\<close> on the addition of line 73 raises in the first pass of the loop.
\<close>

theorem level0_shape_mismatch:
  assumes "dwt data = Inr (cA, cD)" and "8 dvd length cD" and "16 \<le> length cD"
  shows "bpm_detector dwt data fs = Inl ValueError"
proof -
  have "[0..<levels] = 0 # [1..<levels]"
    by (simp add: levels_def upt_rec)
  then show ?thesis
    using first_level_mismatch [of dwt data cA cD "[1..<levels]" "([], [], 0)"] assms
    by (simp add: bpm_detector_def)
qed

text \<open>A window of 25 samples has 16 detail coefficients at level 0.\<close>

theorem level0_shape_mismatch_witness:
  "bpm_detector dwt_silent (replicate 25 0) 44100 = Inl ValueError"
proof -
  have 1: "dwt_silent (replicate 25 0) = Inr (replicate 16 0, replicate 16 0)"
    by (simp add: dwt_silent_def)
  have 2: "8 dvd length (replicate 16 (0::real))" and 3: "16 \<le> length (replicate 16 (0::real))"
    by simp_all
  show ?thesis
    using level0_shape_mismatch [of dwt_silent "replicate 25 0" "replicate 16 0" "replicate 16 0" 44100]
      1 2 3 by blast
qed

text \<open>Line 75: once the loop has finished, an approximation signal of zeros ends the
  function with \<^verbatim>\<open>no_audio_data()\<close>.\<close>

lemma zero_approximation_no_audio:
  assumes "dwt_loop dwt data [0..<levels] ([], [], 0) = Inr (cA, cD_sum, cD_minlen)"
    and "\<forall>b\<in>set cA. b = 0"
  shows "bpm_detector dwt data fs = Inr None"
  using assms by (simp add: bpm_detector_def filter_empty_conv)

text \<open>
  Claim C5. The claim is that every silent window is answered by \<^verbatim>\<open>no_audio_data()\<close>.
  A silent window of 26 samples does not reach line 75: the addition of line 73 raises
  in the first pass of the loop.
\<close>

theorem silent_window_raises:
  "bpm_detector dwt_silent (replicate 26 0) 44100 = Inl ValueError"
proof -
  have 1: "dwt_silent (replicate 26 0) = Inr (replicate 16 0, replicate 16 0)"
    by (simp add: dwt_silent_def)
  have 2: "[0..<levels] = 0 # [1..<levels]"
    by (simp add: levels_def upt_rec)
  show ?thesis
    using first_level_mismatch [of dwt_silent "replicate 26 0" "replicate 16 0" "replicate 16 0"
        "[1..<levels]" "([], [], 0)"] 1
    by (simp add: bpm_detector_def 2)
qed

section \<open>Windows on which the loop finishes\<close>

lemma np_add_same_length:
  "length xs = length ys \<Longrightarrow> \<exists>t. np_add xs ys = Inr t \<and> length t = length ys"
  by (simp add: np_add_def)

lemma ceil_div_8:
  assumes "\<not> 8 dvd (n::nat)"
  shows "(n + 7) div 8 = Suc (n div 8)"
proof -
  define q r where "q = n div 8" and "r = n mod 8"
  have r: "0 < r" "r < 8"
    using assms by (simp_all add: r_def dvd_eq_mod_eq_0)
  have n: "n = 8 * q + r"
    by (simp add: q_def r_def)
  have "8 * Suc q \<le> n + 7" and "n + 7 < 8 * Suc (Suc q)"
    using r n by simp_all
  then have "(n + 7) div 8 = Suc q"
    by (rule div_nat_eqI)
  then show ?thesis
    by (simp add: q_def)
qed

lemma dwt_loop_first:
  assumes "dwt data = Inr (cA', cD)" and "\<not> 8 dvd length cD"
  shows "\<exists>t. length t = length cD div 8 + 1
            \<and> dwt_loop dwt data (0 # rest) st
                = dwt_loop dwt data rest (cA', t, real (length cD) / real max_decimation + 1)"
proof -
  obtain a s m where st: "st = (a, s, m)"
    by (cases st) auto
  let ?n = "Suc (length cD div 8)"
  have env: "detail_envelope 0 cD = Inr (decimate_abs_center 0 cD)"
    by (simp add: detail_envelope_def lfilter_same_coeff)
  have "(length cD + 7) div 8 = ?n"
    using assms(2) by (rule ceil_div_8)
  then have len: "length (decimate_abs_center 0 cD) = ?n"
    by (simp add: length_level0_envelope)
  then have "length (slice (decimate_abs_center 0 cD) 0 ?n) = length (replicate ?n (0::real))"
    by (simp add: slice_def)
  from np_add_same_length [OF this]
  obtain t where t: "np_add (slice (decimate_abs_center 0 cD) 0 ?n) (replicate ?n 0) = Inr t"
    and lt: "length t = ?n"
    by auto
  have "dwt_loop dwt data (0 # rest) st
          = dwt_loop dwt data rest (cA', t, real (length cD) / real max_decimation + 1)"
    using assms(1) env t by (simp add: st floor_minlen_Suc del: replicate_Suc)
  with lt show ?thesis
    by auto
qed

lemma dwt_loop_later:
  assumes "0 < loop" and "dwt cA = Inr (cA', cD)"
    and "nat \<lfloor>m\<rfloor> \<le> length (decimate_abs_center loop cD)" and "length s = nat \<lfloor>m\<rfloor>"
  shows "\<exists>t. length t = nat \<lfloor>m\<rfloor>
            \<and> dwt_loop dwt data (loop # rest) (cA, s, m) = dwt_loop dwt data rest (cA', t, m)"
proof -
  have env: "detail_envelope loop cD = Inr (decimate_abs_center loop cD)"
    by (simp add: detail_envelope_def lfilter_same_coeff)
  have "length (slice (decimate_abs_center loop cD) 0 (nat \<lfloor>m\<rfloor>)) = length s"
    using assms(3,4) by (simp add: slice_def)
  from np_add_same_length [OF this]
  obtain t where t: "np_add (slice (decimate_abs_center loop cD) 0 (nat \<lfloor>m\<rfloor>)) s = Inr t"
    and lt: "length t = length s"
    by auto
  have "dwt_loop dwt data (loop # rest) (cA, s, m) = dwt_loop dwt data rest (cA', t, m)"
    using assms(1,2) env t by simp
  with lt assms(4) show ?thesis
    by auto
qed

lemma length_later_envelope:
  "loop < levels \<Longrightarrow> length (decimate_abs_center loop cD)
      = (length cD + 2 ^ (levels - loop - 1) - 1) div 2 ^ (levels - loop - 1)"
  using length_stride [of "2 ^ (levels - loop - 1)" cD]
  by (simp add: decimate_abs_center_def)

text \<open>
  With the lengths of \<^verbatim>\<open>pywt.dwt\<close>, the loop finishes on every non-empty window whose
  number of level-0 detail coefficients is not a multiple of 8, and the composite signal
  has the common length.
\<close>

lemma dwt_loop_finishes:
  assumes "db4_lengths dwt" and "data \<noteq> []" and "\<not> 8 dvd (length data + 7) div 2"
  shows "\<exists>cA cD_sum cD_minlen.
           dwt_loop dwt data [0..<levels] ([], [], 0) = Inr (cA, cD_sum, cD_minlen)
           \<and> length cD_sum = (length data + 7) div 2 div 8 + 1
           \<and> (\<exists>a0 d0 a1 d1 a2 d2 d3.
                 dwt data = Inr (a0, d0) \<and> dwt a0 = Inr (a1, d1)
                 \<and> dwt a1 = Inr (a2, d2) \<and> dwt a2 = Inr (cA, d3))"
proof -
  let ?n0 = "(length data + 7) div 2"
  let ?m = "real ?n0 / real max_decimation + 1"
  have m: "nat \<lfloor>?m\<rfloor> = ?n0 div 8 + 1"
    by (rule floor_minlen)
  have idx: "[0..<levels] = [0, 1, 2, 3]"
    by (simp add: levels_def upt_rec)
  from assms(1,2) obtain a0 d0 where 0: "dwt data = Inr (a0, d0)"
    and la0: "length a0 = ?n0" and ld0: "length d0 = ?n0"
    unfolding db4_lengths_def by blast
  have a0: "a0 \<noteq> []"
    using la0 by auto
  with assms(1) obtain a1 d1 where 1: "dwt a0 = Inr (a1, d1)"
    and la1: "length a1 = (?n0 + 7) div 2" and ld1: "length d1 = (?n0 + 7) div 2"
    unfolding db4_lengths_def la0 [symmetric] by blast
  have a1: "a1 \<noteq> []"
    using la1 by auto
  with assms(1) obtain a2 d2 where 2: "dwt a1 = Inr (a2, d2)"
    and la2: "length a2 = ((?n0 + 7) div 2 + 7) div 2"
    and ld2: "length d2 = ((?n0 + 7) div 2 + 7) div 2"
    unfolding db4_lengths_def la1 [symmetric] by blast
  have a2: "a2 \<noteq> []"
    using la2 by auto
  with assms(1) obtain a3 d3 where 3: "dwt a2 = Inr (a3, d3)"
    and ld3: "length d3 = (((?n0 + 7) div 2 + 7) div 2 + 7) div 2"
    unfolding db4_lengths_def la2 [symmetric] by blast
  from dwt_loop_first [of dwt data a0 d0 "[1, 2, 3]" "([], [], 0)"] 0 assms(3)
  obtain t0 where lt0: "length t0 = nat \<lfloor>?m\<rfloor>"
    and s0: "dwt_loop dwt data [0, 1, 2, 3] ([], [], 0) = dwt_loop dwt data [1, 2, 3] (a0, t0, ?m)"
    unfolding ld0 m by auto
  have "nat \<lfloor>?m\<rfloor> \<le> length (decimate_abs_center 1 d1)"
    unfolding m by (simp add: length_later_envelope levels_def ld1; linarith)
  from dwt_loop_later [of 1 dwt a0 a1 d1 ?m t0 data "[2, 3]"] 1 this lt0
  obtain t1 where lt1: "length t1 = nat \<lfloor>?m\<rfloor>"
    and s1: "dwt_loop dwt data [1, 2, 3] (a0, t0, ?m) = dwt_loop dwt data [2, 3] (a1, t1, ?m)"
    by auto
  have "nat \<lfloor>?m\<rfloor> \<le> length (decimate_abs_center 2 d2)"
    unfolding m by (simp add: length_later_envelope levels_def ld2; linarith)
  from dwt_loop_later [of 2 dwt a1 a2 d2 ?m t1 data "[3]"] 2 this lt1
  obtain t2 where lt2: "length t2 = nat \<lfloor>?m\<rfloor>"
    and s2: "dwt_loop dwt data [2, 3] (a1, t1, ?m) = dwt_loop dwt data [3] (a2, t2, ?m)"
    by auto
  have "nat \<lfloor>?m\<rfloor> \<le> length (decimate_abs_center 3 d3)"
    unfolding m by (simp add: length_later_envelope levels_def ld3; linarith)
  from dwt_loop_later [of 3 dwt a2 a3 d3 ?m t2 data "[]"] 3 this lt2
  obtain t3 where lt3: "length t3 = nat \<lfloor>?m\<rfloor>"
    and s3: "dwt_loop dwt data [3] (a2, t2, ?m) = dwt_loop dwt data [] (a3, t3, ?m)"
    by auto
  have "dwt_loop dwt data [0..<levels] ([], [], 0) = Inr (a3, t3, ?m)"
    unfolding idx s0 s1 s2 s3 by simp
  with lt3 m 0 1 2 3 show ?thesis
    by auto
qed

lemma db4_lengths_dwt_silent: "db4_lengths dwt_silent"
  by (simp add: db4_lengths_def dwt_silent_def)

text \<open>On these window lengths a silent window is answered by \<^verbatim>\<open>no_audio_data()\<close>.\<close>

lemma silent_window_no_audio:
  assumes "data \<noteq> []" and "set data \<subseteq> {0}" and "\<not> 8 dvd (length data + 7) div 2"
  shows "bpm_detector dwt_silent data fs = Inr None"
proof -
  from dwt_loop_finishes [OF db4_lengths_dwt_silent assms(1,3)]
  obtain cA cD_sum cD_minlen a2 d3
    where l: "dwt_loop dwt_silent data [0..<levels] ([], [], 0) = Inr (cA, cD_sum, cD_minlen)"
      and a: "dwt_silent a2 = Inr (cA, d3)"
    by blast
  from a have "\<forall>b\<in>set cA. b = 0"
    by (auto simp: dwt_silent_def split: if_splits)
  with l show ?thesis
    by (rule zero_approximation_no_audio)
qed

section \<open>Splitting into windows\<close>

lemma py_int_of_int [simp]: "py_int (of_int k) = k"
  by (simp add: py_int_def)

lemma py_int_mono: "x \<le> y \<Longrightarrow> py_int x \<le> py_int y"
  unfolding py_int_def
  by (smt (verit, best) ceiling_mono floor_mono floor_le_ceiling zero_le_floor ceiling_le_zero
      le_floor_iff ceiling_le_iff of_int_0)

lemma py_slice_nonneg:
  "py_slice xs (int a) (int b) = take (min (length xs) b - min (length xs) a) (drop (min (length xs) a) xs)"
  by (simp add: py_slice_def slice_index_def slice_def)

lemma window_slice:
  assumes "k * w + w \<le> length xs"
  shows "py_slice xs (int k * int w) (int k * int w + int w) = take w (drop (k * w) xs)"
proof -
  have "py_slice xs (int (k * w)) (int (k * w + w)) = take w (drop (k * w) xs)"
    using assms unfolding py_slice_nonneg by (simp add: min_def)
  then show ?thesis
    by simp
qed

lemma concat_windows:
  "m * w \<le> length xs \<Longrightarrow>
   concat (map (\<lambda>k. take w (drop (k * w) xs)) [0..<m]) = take (m * w) xs"
proof (induction m)
  case 0
  then show ?case by simp
next
  case (Suc m)
  then have "concat (map (\<lambda>k. take w (drop (k * w) xs)) [0..<Suc m])
               = take (m * w) xs @ take w (drop (m * w) xs)"
    by simp
  also have "\<dots> = take (m * w + w) xs"
    by (simp add: take_add)
  also have "\<dots> = take (Suc m * w) xs"
    by (simp add: add.commute)
  finally show ?case .
qed

text \<open>
  For a non-empty sequence and a window of at least one sample the loop analyses
  \<open>\<lfloor>n / w\<rfloor>\<close> windows of \<open>w\<close> samples each, \<open>w\<close> the smaller of the sequence length \<open>n\<close>
  and the window length: window \<open>k\<close> starts at sample \<open>k w\<close>, together they are a prefix of
  the sequence, and a sequence shorter than one window is its own single window.
\<close>

lemma split_windows_regular:
  assumes "samps \<noteq> []" and "1 \<le> py_int (window_size * real fs)"
  defines "w \<equiv> min (length samps) (nat (py_int (window_size * real fs)))"
  shows "split_windows samps fs window_size
           = Inr (map (\<lambda>k. take w (drop (k * w) samps)) [0..<length samps div w])"
proof -
  let ?w0 = "py_int (window_size * real fs)"
  have w_pos: "0 < w"
    using assms by (simp add: w_def)
  have ws: "(if int (length samps) < ?w0 then int (length samps) else ?w0) = int w"
    using assms(2) by (auto simp: w_def min_def)
  have fl: "\<lfloor>real_of_int (int (length samps)) / real_of_int (int w)\<rfloor> = int (length samps div w)"
    by (simp add: floor_divide_of_nat_eq)
  have "map (\<lambda>k. py_slice samps (int k * int w) (int k * int w + int w)) [0..<length samps div w]
        = map (\<lambda>k. take w (drop (k * w) samps)) [0..<length samps div w]"
  proof (rule map_cong [OF refl])
    fix k assume "k \<in> set [0..<length samps div w]"
    then have "Suc k \<le> length samps div w"
      by simp
    then have "Suc k * w \<le> length samps div w * w"
      by (rule mult_le_mono1)
    also have "\<dots> \<le> length samps"
      by simp
    finally have "Suc k * w \<le> length samps" .
    then have "k * w + w \<le> length samps"
      by (simp add: add.commute)
    then show "py_slice samps (int k * int w) (int k * int w + int w) = take w (drop (k * w) samps)"
      by (rule window_slice)
  qed
  then show ?thesis
    unfolding split_windows_def Let_def ws fl using w_pos by simp
qed

lemma split_windows_count:
  assumes "samps \<noteq> []" and "1 \<le> py_int (window_size * real fs)"
    and "split_windows samps fs window_size = Inr windows"
  defines "w \<equiv> min (length samps) (nat (py_int (window_size * real fs)))"
  shows "length windows = length samps div w"
    and "\<forall>k<length windows. windows ! k = take w (drop (k * w) samps)"
    and "concat windows = take (length windows * w) samps"
    and "int (length samps) < py_int (window_size * real fs) \<Longrightarrow> windows = [samps]"
proof -
  have eq: "windows = map (\<lambda>k. take w (drop (k * w) samps)) [0..<length samps div w]"
    using split_windows_regular [OF assms(1,2)] assms(3) by (simp add: w_def)
  show "length windows = length samps div w"
    by (simp add: eq)
  show "\<forall>k<length windows. windows ! k = take w (drop (k * w) samps)"
    by (simp add: eq)
  show "concat windows = take (length windows * w) samps"
    unfolding eq by (simp add: concat_windows)
  assume "int (length samps) < py_int (window_size * real fs)"
  then have "w = length samps"
    by (simp add: w_def)
  then show "windows = [samps]"
    using assms(1) by (simp add: eq)
qed

text \<open>
  Claim C6. The claim includes the empty sequence. There \<^verbatim>\<open>window_samps\<close> is set to
  \<^verbatim>\<open>nsamps = 0\<close> and the division of line 125 raises \<^verbatim>\<open>ZeroDivisionError\<close>, whatever the
  detector.
\<close>

theorem empty_sequence_division_by_zero:
  "split_windows [] 44100 3 = Inl ZeroDivisionError
   \<and> detect_file_bpm det (Some ([], 44100)) 3 = Inl ZeroDivisionError"
  by (simp add: split_windows_def detect_file_bpm_def windowed_bpm_def py_int_def)

text \<open>The same division fails for a positive window duration below one sample.\<close>

lemma tiny_window_division_by_zero:
  "split_windows [1, 2, 3] 44100 (1 / 100000) = Inl ZeroDivisionError"
  by (simp add: split_windows_def py_int_def)

section \<open>Segment ranges\<close>

lemma aggregate_empty: "aggregate_bpms [] = Inr None"
  by (simp add: aggregate_bpms_def)

text \<open>A range with \<open>end_time \<le> start_time\<close> is rejected whatever the detector does, so no
  sample of it is analysed.\<close>

lemma reversed_range_rejected:
  assumes "end_time \<le> start_time"
  shows "detect_segment_bpm det audio_data fs start_time end_time window_size = Inr None"
proof -
  have "end_time * real fs \<le> start_time * real fs"
    using assms by (simp add: mult_right_mono)
  then have "py_int (end_time * real fs) \<le> py_int (start_time * real fs)"
    by (rule py_int_mono)
  then show ?thesis
    by (simp add: detect_segment_bpm_def)
qed

text \<open>
  Claim C9. The claim is that a negative \<^verbatim>\<open>start_time\<close> is rejected. For 8 samples at
  2 Hz (4 seconds) and the range from -1.5 s to 3.5 s the sample indices are -3 and 7;
  none of the three tests of line 157 holds, the slice \<^verbatim>\<open>audio_data[-3:7]\<close> is
  \<open>[6, 7]\<close>, and the detector is run on it.
\<close>

theorem negative_start_is_processed:
  "detect_segment_bpm det [1, 2, 3, 4, 5, 6, 7, 8] 2 (- 3 / 2) (7 / 2) 3
     = (case det [6, 7] 2 of
          Inl e \<Rightarrow> Inl e
        | Inr None \<Rightarrow> Inr None
        | Inr (Some (bpm, correl)) \<Rightarrow> aggregate_bpms [bpm])"
proof -
  have s: "py_int (- 3 / 2 * real 2) = - 3" and e: "py_int (7 / 2 * real 2) = 7"
    and w: "py_int (3 * real 2) = 6"
    by (simp_all add: py_int_def)
  have seg: "py_slice [1, 2, 3, 4, 5, 6, 7, 8 :: real] (- 3) 7 = [6, 7]"
    by (simp add: py_slice_def slice_index_def slice_def)
  have win: "split_windows [6, 7] 2 3 = Inr [[6, 7]]"
    by (simp add: split_windows_def py_int_def py_slice_def slice_index_def slice_def)
  show ?thesis
    unfolding detect_segment_bpm_def Let_def s e
    by (simp add: seg windowed_bpm_def win aggregate_empty split: sum.splits option.splits)
qed

text \<open>A start at or after the end of the audio, and an end at least one sample after it,
  are rejected.\<close>

lemma start_after_audio_rejected:
  assumes "real (length audio_data) \<le> start_time * real fs"
  shows "detect_segment_bpm det audio_data fs start_time end_time window_size = Inr None"
proof -
  have "int (length audio_data) \<le> \<lfloor>start_time * real fs\<rfloor>"
    using assms by (simp add: le_floor_iff)
  moreover have "0 \<le> start_time * real fs"
    using assms by (meson of_nat_0_le_iff order_trans)
  ultimately show ?thesis
    by (simp add: detect_segment_bpm_def py_int_def)
qed

lemma end_after_audio_rejected:
  assumes "real (length audio_data) + 1 \<le> end_time * real fs"
  shows "detect_segment_bpm det audio_data fs start_time end_time window_size = Inr None"
proof -
  have "int (length audio_data) + 1 \<le> \<lfloor>end_time * real fs\<rfloor>"
    using assms by (simp add: le_floor_iff)
  moreover have "0 \<le> end_time * real fs"
    using assms by linarith
  ultimately show ?thesis
    by (simp add: detect_segment_bpm_def py_int_def)
qed

text \<open>An end less than one sample after the audio is accepted: for 8 samples at 2 Hz the
  range from 0 s to 4.25 s is analysed, although the audio lasts 4 s.\<close>

lemma end_within_one_sample_is_processed:
  "detect_segment_bpm det [1, 2, 3, 4, 5, 6, 7, 8] 2 0 (17 / 4) 3
     = (case det [1, 2, 3, 4, 5, 6] 2 of
          Inl e \<Rightarrow> Inl e
        | Inr None \<Rightarrow> Inr None
        | Inr (Some (bpm, correl)) \<Rightarrow> aggregate_bpms [bpm])"
proof -
  have e: "py_int (17 / 4 * real 2) = 8"
    by (simp add: py_int_def floor_eq_iff)
  have seg: "py_slice [1, 2, 3, 4, 5, 6, 7, 8 :: real] 0 8 = [1, 2, 3, 4, 5, 6, 7, 8]"
    by (simp add: py_slice_def slice_index_def slice_def)
  have fl: "\<lfloor>8 / 6 :: real\<rfloor> = 1"
    by (simp add: floor_eq_iff)
  have win: "split_windows [1, 2, 3, 4, 5, 6, 7, 8] 2 3 = Inr [[1, 2, 3, 4, 5, 6]]"
    by (simp add: split_windows_def py_int_def py_slice_def slice_index_def slice_def fl)
  show ?thesis
    unfolding detect_segment_bpm_def Let_def e
    by (simp add: py_int_def seg windowed_bpm_def win aggregate_empty
        split: sum.splits option.splits)
qed

section \<open>Median, rounding and the aggregate\<close>

lemma Fin_less_iff [simp]: "Fin x < Fin y \<longleftrightarrow> x < y"
  by (auto simp: less_npfloat_def)









lemma round_half_even_of_int [simp]: "round_half_even (of_int k) = k"
  by (simp add: round_half_even_def)

lemma round_half_even_mono: "x \<le> y \<Longrightarrow> round_half_even x \<le> round_half_even y"
proof -
  assume xy: "x \<le> y"
  have fl: "\<lfloor>x\<rfloor> \<le> \<lfloor>y\<rfloor>"
    using xy by (rule floor_mono)
  show ?thesis
  proof (cases "\<lfloor>x\<rfloor> = \<lfloor>y\<rfloor>")
    case True
    with xy show ?thesis
      by (auto simp: round_half_even_def Let_def)
  next
    case False
    with fl have "\<lfloor>x\<rfloor> + 1 \<le> \<lfloor>y\<rfloor>"
      by simp
    moreover have "round_half_even x \<le> \<lfloor>x\<rfloor> + 1"
      by (simp add: round_half_even_def Let_def)
    moreover have "\<lfloor>y\<rfloor> \<le> round_half_even y"
      by (simp add: round_half_even_def Let_def)
    ultimately show ?thesis
      by linarith
  qed
qed






section \<open>The window estimate\<close>

lemma peak_detect_positions:
  assumes "peak_detect data = Inr ndx"
  shows "data \<noteq> []" and "ndx \<noteq> []" and "sorted ndx" and "distinct ndx"
    and "set ndx =
           (if \<exists>i<length data. data ! i = Max (abs ` set data)
            then {i. i < length data \<and> data ! i = Max (abs ` set data)}
            else {i. i < length data \<and> data ! i = - Max (abs ` set data)})"
proof -
  show ne: "data \<noteq> []"
    using assms by (auto simp: peak_detect_def)
  let ?M = "Max (abs ` set data)"
  have eq: "ndx = (if where_eq data ?M = [] then where_eq data (- ?M) else where_eq data ?M)"
    using assms peak_detect_eq [OF ne] by simp
  show "ndx \<noteq> []"
    using peak_detect_nonempty [OF ne assms] .
  show "sorted ndx" "distinct ndx"
    by (simp_all add: eq sorted_where_eq distinct_where_eq)
  have "where_eq data ?M = [] \<longleftrightarrow> \<not> (\<exists>i<length data. data ! i = ?M)"
    using set_where_eq [of data ?M] by (metis (mono_tags, lifting) empty_Collect_eq set_empty)
  then show "set ndx =
           (if \<exists>i<length data. data ! i = ?M
            then {i. i < length data \<and> data ! i = ?M}
            else {i. i < length data \<and> data ! i = - ?M})"
    by (auto simp: eq set_where_eq)
qed

lemma peak_detect_in_range:
  assumes "peak_detect data = Inr ndx" and "p \<in> set ndx"
  shows "p < length data"
  using assms(2) unfolding peak_detect_positions(5) [OF assms(1)] by (auto split: if_splits)

text \<open>What a successful run of lines 84 to 100 returns.\<close>

lemma acf_bpm_Some:
  assumes "acf_bpm cD_sum fs = Inr (Some (bpm, correl))"
  shows "\<exists>ndx. peak_detect (slice (drop (length correl div 2) correl) (min_ndx fs) (max_ndx fs))
                 = Inr ndx
             \<and> bpm = map (\<lambda>p. bpm_of_lag fs (p + min_ndx fs)) ndx"
  using assms
  by (auto simp: acf_bpm_def Let_def split: sum.splits if_splits)

lemma length_slice: "length (slice xs lo hi) \<le> hi - lo"
  by (simp add: slice_def)

text \<open>The lag bounds of lines 52 and 53, and the BPM values of the lags between them.\<close>

lemma max_ndx_bound: "real (max_ndx fs) \<le> 3 * real fs / 16"
proof -
  have "real_of_int \<lfloor>60 / 40 * (real fs / 8)\<rfloor> \<le> 60 / 40 * (real fs / 8)"
    by (rule of_int_floor_le)
  moreover have "0 \<le> \<lfloor>60 / 40 * (real fs / 8)\<rfloor>"
    by simp
  ultimately show ?thesis
    by (simp add: max_ndx_def max_decimation_def levels_def)
qed

lemma min_ndx_bounds:
  shows "real (min_ndx fs) \<le> 3 * real fs / 88"
    and "3 * real fs / 88 < real (min_ndx fs) + 1"
proof -
  let ?x = "60 / 220 * (real fs / 8)"
  have nn: "0 \<le> \<lfloor>?x\<rfloor>"
    by simp
  have "real_of_int \<lfloor>?x\<rfloor> \<le> ?x" and "?x < real_of_int \<lfloor>?x\<rfloor> + 1"
    by linarith+
  with nn show "real (min_ndx fs) \<le> 3 * real fs / 88"
    and "3 * real fs / 88 < real (min_ndx fs) + 1"
    by (simp_all add: min_ndx_def max_decimation_def levels_def)
qed

lemma bpm_of_lag_bounds:
  assumes "min_ndx fs \<le> lag" and "lag < max_ndx fs"
  shows "bpm_of_lag fs lag \<noteq> NaN" and "Fin 40 < bpm_of_lag fs lag"
    and "min_ndx fs < lag \<Longrightarrow> bpm_of_lag fs lag < Fin 220"
    and "0 < min_ndx fs \<Longrightarrow> bpm_of_lag fs lag \<le> bpm_of_lag fs (min_ndx fs)"
    and "0 < min_ndx fs \<Longrightarrow> Fin 220 \<le> bpm_of_lag fs (min_ndx fs)"
    and "0 < fs"
proof -
  have "real lag + 1 \<le> real (max_ndx fs)"
    using assms(2) by (metis Suc_eq_plus1 Suc_leI of_nat_1 of_nat_add of_nat_mono)
  then have up: "real lag < 3 * real fs / 16"
    using max_ndx_bound [of fs] by linarith
  then show fs: "0 < fs"
    by (cases "fs = 0") simp_all
  show "bpm_of_lag fs lag \<noteq> NaN"
    using fs by (simp add: bpm_of_lag_def)
  show "Fin 40 < bpm_of_lag fs lag"
  proof (cases "lag = 0")
    case True
    with fs show ?thesis
      by (simp add: bpm_of_lag_def less_npfloat_def)
  next
    case False
    then have "40 * real lag < 60 * (real fs / 8)"
      using up by simp
    then have "40 < 60 / real lag * (real fs / 8)"
      using False by (simp add: field_simps)
    with False show ?thesis
      by (simp add: bpm_of_lag_def max_decimation_def levels_def less_npfloat_def)
  qed
  show "bpm_of_lag fs lag < Fin 220" if "min_ndx fs < lag"
  proof -
    from that have "real (min_ndx fs) + 1 \<le> real lag"
      by (metis Suc_eq_plus1 Suc_leI of_nat_1 of_nat_add of_nat_mono)
    then have "3 * real fs / 88 < real lag"
      using min_ndx_bounds(2) [of fs] by linarith
    moreover from that have pos: "0 < lag"
      by simp
    ultimately have "60 / real lag * (real fs / 8) < 220"
      by (simp add: field_simps)
    with pos show ?thesis
      by (simp add: bpm_of_lag_def max_decimation_def levels_def less_npfloat_def)
  qed
  show "bpm_of_lag fs lag \<le> bpm_of_lag fs (min_ndx fs)" if "0 < min_ndx fs"
  proof -
    from that assms(1) have pos: "0 < lag"
      by simp
    have "60 / real lag \<le> 60 / real (min_ndx fs)"
      using that assms(1) by (simp add: frac_le)
    then have "60 / real lag * (real fs / 8) \<le> 60 / real (min_ndx fs) * (real fs / 8)"
      by (rule mult_right_mono) simp
    with pos that show ?thesis
      by (simp add: bpm_of_lag_def max_decimation_def levels_def)
  qed
  show "Fin 220 \<le> bpm_of_lag fs (min_ndx fs)" if "0 < min_ndx fs"
  proof -
    have "220 * real (min_ndx fs) \<le> 60 * (real fs / 8)"
      using min_ndx_bounds(1) [of fs] by simp
    then have "220 \<le> 60 / real (min_ndx fs) * (real fs / 8)"
      using that by (simp add: field_simps)
    with that show ?thesis
      by (simp add: bpm_of_lag_def max_decimation_def levels_def)
  qed
qed

lemma acf_bpm_lags:
  assumes "acf_bpm cD_sum fs = Inr (Some (bpm, correl))" and "b \<in> set bpm"
  shows "\<exists>lag. min_ndx fs \<le> lag \<and> lag < max_ndx fs \<and> b = bpm_of_lag fs lag"
proof -
  from acf_bpm_Some [OF assms(1)] obtain ndx
    where pd: "peak_detect (slice (drop (length correl div 2) correl) (min_ndx fs) (max_ndx fs))
                 = Inr ndx"
      and bpm: "bpm = map (\<lambda>p. bpm_of_lag fs (p + min_ndx fs)) ndx"
    by blast
  from assms(2) bpm obtain p where p: "p \<in> set ndx" and b: "b = bpm_of_lag fs (p + min_ndx fs)"
    by auto
  have "p < max_ndx fs - min_ndx fs"
    using peak_detect_in_range [OF pd p] length_slice
    by (meson order_less_le_trans)
  then have "min_ndx fs \<le> p + min_ndx fs" and "p + min_ndx fs < max_ndx fs"
    by simp_all
  with b show ?thesis
    by blast
qed

section \<open>Bounds on the reported BPM\<close>

lemma Fin_less_PInf [simp]: "Fin x < PInf"
  by (simp add: less_npfloat_def)

lemma np_mean2_above:
  assumes "a \<noteq> NaN" and "b \<noteq> NaN" and "Fin c < a" and "Fin c < b"
  shows "np_mean2 a b \<noteq> NaN \<and> Fin c < np_mean2 a b"
  using assms by (cases a; cases b) simp_all

lemma np_median_above:
  assumes "xs \<noteq> []" and "\<forall>x\<in>set xs. x \<noteq> NaN \<and> Fin c < x"
  shows "np_median xs \<noteq> NaN \<and> Fin c < np_median xs"
proof -
  let ?s = "sort xs" and ?n = "length (sort xs)"
  have n: "0 < ?n"
    using assms(1) by simp
  have mem: "?s ! i \<noteq> NaN \<and> Fin c < ?s ! i" if "i < ?n" for i
  proof -
    from that have "?s ! i \<in> set ?s"
      by (rule nth_mem)
    then show ?thesis
      using assms(2) by simp
  qed
  have ne: "?s \<noteq> []"
    using n length_greater_0_conv [of ?s] by blast
  then have "last ?s = ?s ! (?n - 1)"
    by (rule last_conv_nth)
  then have last: "last ?s \<noteq> NaN"
    using mem [of "?n - 1"] n by simp
  show ?thesis
  proof (cases "odd ?n")
    case True
    then have "np_median xs = ?s ! (?n div 2)"
      using n last ne by (simp add: np_median_def Let_def)
    then show ?thesis
      using mem [of "?n div 2"] n by simp
  next
    case False
    then have "np_median xs = np_mean2 (?s ! (?n div 2 - 1)) (?s ! (?n div 2))"
      using n last ne by (simp add: np_median_def Let_def)
    moreover have "?n div 2 - 1 < ?n" "?n div 2 < ?n"
      using n by linarith+
    ultimately show ?thesis
      using mem np_mean2_above by metis
  qed
qed

lemma py_round1_above_40:
  assumes "m \<noteq> NaN" and "Fin 40 < m"
  shows "py_round1 m \<noteq> NaN \<and> Fin 40 \<le> py_round1 m"
proof (cases m)
  case (Fin x)
  with assms have "of_int 400 \<le> x * 10"
    by simp
  then have "round_half_even (of_int 400) \<le> round_half_even (x * 10)"
    by (rule round_half_even_mono)
  then have "400 \<le> round_half_even (x * 10)"
    by (simp only: round_half_even_of_int)
  then have "40 \<le> real_of_int (round_half_even (x * 10)) / 10"
    by simp
  with Fin show ?thesis
    by simp
next
  case PInf
  then show ?thesis by simp
next
  case NaN
  with assms show ?thesis by simp
qed

lemma aggregate_above_40:
  assumes "\<forall>a\<in>set bpms. a \<noteq> [] \<and> (\<forall>b\<in>set a. b \<noteq> NaN \<and> Fin 40 < b)"
    and "aggregate_bpms bpms = Inr (Some r)"
  shows "r \<noteq> NaN \<and> Fin 40 \<le> r"
proof -
  have ne: "bpms \<noteq> []"
    using assms(2) by (auto simp: aggregate_bpms_def)
  then have r: "r = py_round1 (np_median (concat bpms))"
    using assms(2)
    by (auto simp: aggregate_bpms_def median_of_arrays_def split: sum.splits if_splits)
  have "hd bpms \<in> set bpms"
    using ne by simp
  then have "concat bpms \<noteq> []"
    using assms(1) by auto
  moreover have "\<forall>x\<in>set (concat bpms). x \<noteq> NaN \<and> Fin 40 < x"
    using assms(1) by auto
  ultimately have "np_median (concat bpms) \<noteq> NaN \<and> Fin 40 < np_median (concat bpms)"
    by (rule np_median_above)
  then show ?thesis
    unfolding r by (intro py_round1_above_40) simp_all
qed






section \<open>The shape of a window estimate\<close>

text \<open>The half of the correlation kept by lines 87 and 88 is the autocorrelation at the
  lags 0, 1, 2, ...\<close>

lemma correlate_causal_half:
  assumes "correlate_full a a = Inr correl"
  shows "drop (length correl div 2) correl = map (\<lambda>k. dot (drop k a) a) [0..<length a]"
proof -
  have ne: "a \<noteq> []"
    using assms by (auto simp: correlate_full_def split: if_splits)
  then have c: "correl = map (\<lambda>j. dot a (drop j a)) (rev [1..<length a])
                       @ map (\<lambda>k. dot (drop k a) a) [0..<length a]"
    using assms by (simp add: correlate_full_def)
  have "0 < length a"
    using ne by simp
  then have "length correl div 2 = length a - 1"
    unfolding c by simp
  then show ?thesis
    unfolding c by simp
qed

text \<open>Every estimate that \<open>bpm_detector\<close> returns is the result of lines 84 to 100 on some
  composite signal.\<close>

lemma bpm_detector_Some:
  assumes "bpm_detector dwt data fs = Inr (Some res)"
  shows "\<exists>cD_sum. acf_bpm cD_sum fs = Inr (Some res)"
  using assms
  by (auto simp: bpm_detector_def Let_def split: sum.splits prod.splits if_splits)

text \<open>
  Claim C10, as amended. The estimate of a window that succeeds is a non-empty array: it
  holds one value \<open>60 / lag \<cdot> (fs / 8)\<close> for every position of the searched slice \<open>r\<close> of
  the autocorrelation at which \<open>peak_detect\<close> finds the peak value, in ascending order of
  the lag. It is a single value exactly when that position is unique; when several lags
  tie, all of them are reported.
\<close>

theorem estimate_holds_every_tied_lag:
  assumes "acf_bpm cD_sum fs = Inr (Some (bpm, correl))"
  shows "\<exists>ndx r. r = slice (drop (length correl div 2) correl) (min_ndx fs) (max_ndx fs)
           \<and> bpm = map (\<lambda>p. bpm_of_lag fs (p + min_ndx fs)) ndx
           \<and> ndx \<noteq> [] \<and> sorted ndx \<and> distinct ndx
           \<and> set ndx =
               (if \<exists>i<length r. r ! i = Max (abs ` set r)
                then {i. i < length r \<and> r ! i = Max (abs ` set r)}
                else {i. i < length r \<and> r ! i = - Max (abs ` set r)})
           \<and> length bpm = card (set ndx)"
proof -
  let ?r = "slice (drop (length correl div 2) correl) (min_ndx fs) (max_ndx fs)"
  from acf_bpm_Some [OF assms] obtain ndx
    where pd: "peak_detect ?r = Inr ndx"
      and bpm: "bpm = map (\<lambda>p. bpm_of_lag fs (p + min_ndx fs)) ndx"
    by blast
  have "length bpm = card (set ndx)"
    using peak_detect_positions(4) [OF pd] by (simp add: bpm distinct_card)
  then show ?thesis
    using bpm peak_detect_positions(2,3,4,5) [OF pd] by blast
qed

text \<open>The autocorrelation of the composite signal \<open>[1, 1, 0, 1, 1, 0]\<close> is 2 at the lags 1
  and 3 and smaller at the lags 2, 4 and 5.\<close>

lemma acf_bpm_tied:
  "acf_bpm [1, 1, 0, 1, 1, 0] 32
     = Inr (Some ([Fin 240, Fin 80], [0, 1, 2, 1, 2, 4, 2, 1, 2, 1, 0]))"
  by code_simp

text \<open>The theorem at this composite signal.\<close>

theorem estimate_holds_every_tied_lag_witness:
  "\<exists>ndx. [Fin 240, Fin 80] = map (\<lambda>p. bpm_of_lag 32 (p + min_ndx 32)) ndx
         \<and> ndx \<noteq> [] \<and> sorted ndx \<and> distinct ndx
         \<and> length [Fin 240, Fin 80 :: npfloat] = card (set ndx)"
proof -
  from estimate_holds_every_tied_lag [OF acf_bpm_tied]
  obtain ndx where "[Fin 240, Fin 80] = map (\<lambda>p. bpm_of_lag 32 (p + min_ndx 32)) ndx"
    and "ndx \<noteq> []" and "sorted ndx" and "distinct ndx"
    and "length [Fin 240, Fin 80 :: npfloat] = card (set ndx)"
    by (elim exE conjE)
  then show ?thesis
    by (intro exI [of _ ndx] conjI)
qed

text \<open>
  Claim C10 as stated fails: at 32 Hz this composite signal gives an estimate of two
  values, 240 for lag 1 and 80 for lag 3.
\<close>

theorem tied_lags_counterexample:
  "acf_bpm [1, 1, 0, 1, 1, 0] 32
     = Inr (Some ([Fin 240, Fin 80], [0, 1, 2, 1, 2, 4, 2, 1, 2, 1, 0]))
   \<and> length [Fin 240, Fin 80 :: npfloat] = 2"
  using acf_bpm_tied by simp

text \<open>Estimates of different lengths cannot be aggregated.\<close>

lemma ragged_estimates_raise:
  "aggregate_bpms [[Fin 240, Fin 80], [Fin 120]] = Inl ValueError"
  by (simp add: aggregate_bpms_def median_of_arrays_def)

section \<open>From the windows to the file\<close>

text \<open>The loop over the windows keeps, in order, the estimates of the windows that have
  one; each kept estimate is the detector's answer on one of the windows.\<close>

lemma window_loop_estimates:
  assumes "window_loop det fs windows = Inr bpms" and "a \<in> set bpms"
  shows "\<exists>w correl. w \<in> set windows \<and> det w fs = Inr (Some (a, correl))"
  using assms
proof (induction windows arbitrary: bpms)
  case Nil
  then show ?case by simp
next
  case (Cons w ws)
  show ?case
  proof (cases "det w fs")
    case (Inl e)
    with Cons.prems show ?thesis by simp
  next
    case (Inr res)
    show ?thesis
    proof (cases res)
      case None
      with Inr Cons show ?thesis
        by auto
    next
      case (Some p)
      obtain bpm correl where p: "p = (bpm, correl)"
        by (cases p) auto
      with Some Inr Cons.prems obtain rest
        where rest: "window_loop det fs ws = Inr rest" and bpms: "bpms = bpm # rest"
        by (auto split: sum.splits)
      show ?thesis
      proof (cases "a = bpm")
        case True
        with Inr Some p show ?thesis
          by auto
      next
        case False
        with Cons.prems(2) bpms have "a \<in> set rest"
          by simp
        from Cons.IH [OF rest this] show ?thesis
          by auto
      qed
    qed
  qed
qed

lemma window_loop_no_estimates:
  assumes "\<forall>w\<in>set windows. det w fs = Inr None"
  shows "window_loop det fs windows = Inr []"
  using assms by (induction windows) simp_all

text \<open>When no window has an estimate the result is \<^verbatim>\<open>None\<close>.\<close>

lemma no_estimates_undetected:
  assumes "split_windows samps fs window_size = Inr windows"
    and "\<forall>w\<in>set windows. det w fs = Inr None"
  shows "windowed_bpm det samps fs window_size = Inr None"
  using assms window_loop_no_estimates [of windows det fs]
  by (simp add: windowed_bpm_def aggregate_empty)

text \<open>The bounds for the whole of \<open>bpm_detector\<close> and for a file analysed with it.\<close>

lemma bpm_detector_values:
  assumes "bpm_detector dwt data fs = Inr (Some (bpm, correl))"
  shows "bpm \<noteq> []" and "\<forall>b\<in>set bpm. b \<noteq> NaN \<and> Fin 40 < b"
proof -
  from bpm_detector_Some [OF assms] obtain cD_sum
    where acf: "acf_bpm cD_sum fs = Inr (Some (bpm, correl))"
    by blast
  from acf_bpm_Some [OF acf] obtain ndx
    where pd: "peak_detect (slice (drop (length correl div 2) correl) (min_ndx fs) (max_ndx fs))
                 = Inr ndx"
      and bpm: "bpm = map (\<lambda>p. bpm_of_lag fs (p + min_ndx fs)) ndx"
    by blast
  show "bpm \<noteq> []"
    using peak_detect_positions(2) [OF pd] by (simp add: bpm)
  show "\<forall>b\<in>set bpm. b \<noteq> NaN \<and> Fin 40 < b"
  proof
    fix b assume "b \<in> set bpm"
    from acf_bpm_lags [OF acf this] obtain lag
      where lag: "min_ndx fs \<le> lag" "lag < max_ndx fs" and b: "b = bpm_of_lag fs lag"
      by blast
    show "b \<noteq> NaN \<and> Fin 40 < b"
      unfolding b using bpm_of_lag_bounds(1,2) [OF lag] by simp
  qed
qed

lemma file_bpm_at_least_40:
  assumes "windowed_bpm (bpm_detector dwt) samps fs window_size = Inr (Some r)"
  shows "r \<noteq> NaN \<and> Fin 40 \<le> r"
proof -
  from assms obtain windows bpms
    where loop: "window_loop (bpm_detector dwt) fs windows = Inr bpms"
      and agg: "aggregate_bpms bpms = Inr (Some r)"
    by (auto simp: windowed_bpm_def split: sum.splits)
  have "\<forall>a\<in>set bpms. a \<noteq> [] \<and> (\<forall>b\<in>set a. b \<noteq> NaN \<and> Fin 40 < b)"
  proof
    fix a assume "a \<in> set bpms"
    from window_loop_estimates [OF loop this] obtain w correl
      where "bpm_detector dwt w fs = Inr (Some (a, correl))"
      by blast
    then show "a \<noteq> [] \<and> (\<forall>b\<in>set a. b \<noteq> NaN \<and> Fin 40 < b)"
      using bpm_detector_values by blast
  qed
  then show ?thesis
    using agg by (rule aggregate_above_40)
qed

end
